theory Spec2Isabelle
  imports Complex_Main "HOL-Library.AList"
begin

section \<open>Strings and character classes\<close>

text \<open>
  A Python \<open>str\<close> is a sequence of Unicode code points. The program tests characters with
  \<open>str.isupper\<close>, \<open>str.islower\<close>, \<open>str.isdigit\<close>, \<open>str.isalpha\<close>, with the regular
  expression class \<open>\s\<close> and \<open>str.strip\<close> (both \<open>str.isspace\<close>), and converts digits
  with \<open>int\<close>. On the ASCII range these are fixed below as the interpreter has them; the
  two non-ASCII characters the program names, the middle dot U+00B7 and the right arrow
  U+2192, are punctuation and a symbol and belong to no class. For every other code point
  the classification is the interpreter's Unicode database, which is taken as a parameter.
\<close>

type_synonym codepoint = nat
type_synonym pystr = "codepoint list"

record unicode_db =
  db_isupper :: "codepoint \<Rightarrow> bool"
  db_islower :: "codepoint \<Rightarrow> bool"
  db_isdigit :: "codepoint \<Rightarrow> bool"
  db_isalpha :: "codepoint \<Rightarrow> bool"
  db_isspace :: "codepoint \<Rightarrow> bool"
  db_int :: "codepoint \<Rightarrow> int option"

definition MIDDLE_DOT :: codepoint where
  "MIDDLE_DOT = 183"

definition RIGHT_ARROW :: codepoint where
  "RIGHT_ARROW = 8594"

definition named_cp :: "codepoint \<Rightarrow> bool" where
  "named_cp c = (c < 128 \<or> c = MIDDLE_DOT \<or> c = RIGHT_ARROW)"

definition isupper :: "unicode_db \<Rightarrow> codepoint \<Rightarrow> bool" where
  "isupper U c = (if c < 128 then 65 \<le> c \<and> c \<le> 90
                  else if named_cp c then False else db_isupper U c)"

definition islower :: "unicode_db \<Rightarrow> codepoint \<Rightarrow> bool" where
  "islower U c = (if c < 128 then 97 \<le> c \<and> c \<le> 122
                  else if named_cp c then False else db_islower U c)"

definition isdigit :: "unicode_db \<Rightarrow> codepoint \<Rightarrow> bool" where
  "isdigit U c = (if c < 128 then 48 \<le> c \<and> c \<le> 57
                  else if named_cp c then False else db_isdigit U c)"

definition isalpha :: "unicode_db \<Rightarrow> codepoint \<Rightarrow> bool" where
  "isalpha U c = (if c < 128 then (65 \<le> c \<and> c \<le> 90) \<or> (97 \<le> c \<and> c \<le> 122)
                  else if named_cp c then False else db_isalpha U c)"

definition isspace :: "unicode_db \<Rightarrow> codepoint \<Rightarrow> bool" where
  "isspace U c = (if c < 128 then (9 \<le> c \<and> c \<le> 13) \<or> (28 \<le> c \<and> c \<le> 32)
                  else if named_cp c then False else db_isspace U c)"

text \<open>\<open>int(c)\<close> on a one-character string: the digit's value, or \<open>ValueError\<close> (here
  \<open>None\<close>) when the character is no decimal digit.\<close>

definition int_of_char :: "unicode_db \<Rightarrow> codepoint \<Rightarrow> int option" where
  "int_of_char U c = (if c < 128 then (if 48 \<le> c \<and> c \<le> 57 then Some (int c - 48) else None)
                      else if named_cp c then None else db_int U c)"

text \<open>The database that classifies nothing beyond the named code points; concrete runs on
  ASCII text do not depend on the choice.\<close>

definition ascii_db :: unicode_db where
  "ascii_db = \<lparr> db_isupper = (\<lambda>c. False), db_islower = (\<lambda>c. False),
                db_isdigit = (\<lambda>c. False), db_isalpha = (\<lambda>c. False),
                db_isspace = (\<lambda>c. False), db_int = (\<lambda>c. None) \<rparr>"

text \<open>A string literal of ASCII characters as a Python string.\<close>

definition str :: "string \<Rightarrow> pystr" where
  "str s = map of_char s"

section \<open>Exceptions\<close>

text \<open>The exceptions the program can raise: \<open>IndexError\<close> from \<open>formula[-1]\<close> on an empty
  string or from a list index, \<open>KeyError\<close> from a dictionary subscript, and \<open>ValueError\<close>
  with one of four messages.\<close>

datatype message =
    Invalid_formula pystr pystr
  | Invalid_literal codepoint
  | Invalid_equation
  | Need_to_parse

datatype error = IndexError | KeyError | ValueError message

section \<open>Dictionaries\<close>

text \<open>Python dictionaries keep insertion order, and the order of the element universe
  decides the order of the matrix rows, so a dictionary is an association list with
  distinct keys: assigning to an existing key keeps its place, a new key goes last.\<close>

type_synonym element_count = "(pystr \<times> int) list"

definition dict_get :: "('k \<times> int) list \<Rightarrow> 'k \<Rightarrow> int" where
  "dict_get d k = (case map_of d k of None \<Rightarrow> 0 | Some v \<Rightarrow> v)"

text \<open>\<open>d[k] += n\<close> on a \<open>defaultdict(int)\<close>.\<close>

definition dict_add :: "'k \<Rightarrow> int \<Rightarrow> ('k \<times> int) list \<Rightarrow> ('k \<times> int) list" where
  "dict_add k n d = AList.update k (dict_get d k + n) d"

text \<open>\<open>for element, count in src.items(): dst[element] += count * m\<close>.\<close>

fun add_all :: "int \<Rightarrow> ('k \<times> int) list \<Rightarrow> ('k \<times> int) list \<Rightarrow> ('k \<times> int) list" where
  "add_all m [] dst = dst"
| "add_all m ((element, count) # src) dst = add_all m src (dict_add element (count * m) dst)"

section \<open>Formula validation\<close>

text \<open>The loop of \<open>validate_formula\<close> that collects the element symbols: an uppercase
  character followed by the maximal run of lowercase characters.\<close>

lemma length_dropWhile_less [termination_simp]:
  "length (dropWhile P xs) < Suc (length xs)"
  by (simp add: le_imp_less_Suc length_dropWhile_le)

fun collect_elements :: "unicode_db \<Rightarrow> pystr \<Rightarrow> pystr list" where
  "collect_elements U [] = []"
| "collect_elements U (c # cs) =
     (if isupper U c
      then (c # takeWhile (islower U) cs) # collect_elements U (dropWhile (islower U) cs)
      else collect_elements U cs)"

text \<open>\<open>str.replace\<close> with one-character arguments.\<close>

definition replace :: "codepoint \<Rightarrow> codepoint \<Rightarrow> pystr \<Rightarrow> pystr" where
  "replace a b s = map (\<lambda>c. if c = a then b else c) s"

text \<open>The suggestion: \<open>0\<close> becomes \<open>O\<close> and \<open>1\<close> becomes \<open>I\<close>, at every occurrence.\<close>

fun suggest :: "pystr \<Rightarrow> (codepoint \<times> codepoint) list \<Rightarrow> pystr \<Rightarrow> pystr" where
  "suggest formula [] suggested = suggested"
| "suggest formula ((a, b) # common_errors) suggested =
     suggest formula common_errors
       (if a \<in> set formula then replace a b suggested else suggested)"

definition common_errors :: "(codepoint \<times> codepoint) list" where
  "common_errors = [(48, 79), (49, 73)]"

definition validate_formula :: "unicode_db \<Rightarrow> pystr \<Rightarrow> error + unit" where
  "validate_formula U formula =
     (if formula = [] then Inl IndexError
      else if isdigit U (last formula) \<and> list_ex (isalpha U) (butlast formula) then
        (let elements = collect_elements U formula in
         if elements \<noteq> [] \<and> isdigit U (last formula) then
           (let suggested = suggest formula common_errors formula in
            if suggested \<noteq> formula
            then Inl (ValueError (Invalid_formula formula suggested))
            else Inr ())
         else Inr ())
      else Inr ())"

section \<open>Counting atoms\<close>

text \<open>A maximal digit run read as a decimal number, with the rest of the text.\<close>

fun read_number :: "unicode_db \<Rightarrow> int \<Rightarrow> pystr \<Rightarrow> error + (int \<times> pystr)" where
  "read_number U acc [] = Inr (acc, [])"
| "read_number U acc (c # cs) =
     (if isdigit U c then
        (case int_of_char U c of
           None \<Rightarrow> Inl (ValueError (Invalid_literal c))
         | Some d \<Rightarrow> read_number U (acc * 10 + d) cs)
      else Inr (acc, c # cs))"

lemma read_number_length:
  "read_number U acc cs = Inr (m, rest) \<Longrightarrow> length rest \<le> length cs"
proof (induction cs arbitrary: acc)
  case Nil
  then show ?case by simp
next
  case (Cons c cs)
  show ?case
  proof (cases "isdigit U c")
    case True
    with Cons.prems obtain d where "read_number U (acc * 10 + d) cs = Inr (m, rest)"
      by (auto split: option.splits)
    then have "length rest \<le> length cs" by (rule Cons.IH)
    then show ?thesis by simp
  next
    case False
    with Cons.prems show ?thesis by auto
  qed
qed

text \<open>The scanning loop of \<open>atom_count_in_formula\<close>, on the text from position \<open>i\<close> on.
  The stack grows at its end, as the Python list does. A closing parenthesis with an
  empty stack leaves everything as it is.\<close>

function scan_formula ::
  "unicode_db \<Rightarrow> element_count list \<Rightarrow> element_count \<Rightarrow> pystr \<Rightarrow> error + element_count" where
  "scan_formula U stack current_element [] = Inr current_element"
| "scan_formula U stack current_element (c # cs) =
     (if c = 40 then scan_formula U (stack @ [current_element]) [] cs
      else if c = 41 then
        (case read_number U 0 cs of
           Inl e \<Rightarrow> Inl e
         | Inr (m, rest) \<Rightarrow>
             (let multiplier = (if m \<noteq> 0 then m else 1) in
              if stack \<noteq> []
              then scan_formula U (butlast stack)
                     (add_all multiplier current_element (last stack)) rest
              else scan_formula U stack current_element rest))
      else if isupper U c then
        (let element = c # takeWhile (islower U) cs in
         case read_number U 0 (dropWhile (islower U) cs) of
           Inl e \<Rightarrow> Inl e
         | Inr (count_num, rest) \<Rightarrow>
             scan_formula U stack
               (dict_add element (if count_num \<noteq> 0 then count_num else 1) current_element)
               rest)
      else scan_formula U stack current_element cs)"
  by pat_completeness auto
termination
proof (relation "measure (\<lambda>(U, stack, cur, cs). length cs)")
  show "wf (measure (\<lambda>(U, stack, cur, cs). length cs))" by simp
next
  fix U :: unicode_db and stack :: "element_count list" and cur :: element_count
    and c :: codepoint and cs :: pystr
  show "((U, stack @ [cur], [], cs), (U, stack, cur, c # cs))
          \<in> measure (\<lambda>(U, stack, cur, cs). length cs)" by simp
next
  fix U :: unicode_db and stack :: "element_count list" and cur :: element_count
    and c :: codepoint and cs :: pystr and x2 x y m rest
  assume "read_number U 0 cs = Inr x2" "(x, y) = x2"
  then have "length y \<le> length cs" using read_number_length[of U 0 cs x y] by simp
  then show "((U, butlast stack, add_all m cur (last stack), y), (U, stack, cur, c # cs))
          \<in> measure (\<lambda>(U, stack, cur, cs). length cs)" by simp
next
  fix U :: unicode_db and stack :: "element_count list" and cur :: element_count
    and c :: codepoint and cs :: pystr and x2 x y
  assume "read_number U 0 cs = Inr x2" "(x, y) = x2"
  then have "length y \<le> length cs" using read_number_length[of U 0 cs x y] by simp
  then show "((U, stack, cur, y), (U, stack, cur, c # cs))
          \<in> measure (\<lambda>(U, stack, cur, cs). length cs)" by simp
next
  fix U :: unicode_db and stack :: "element_count list" and cur :: element_count
    and c :: codepoint and cs :: pystr and x2 x y el n
  assume "read_number U 0 (dropWhile (islower U) cs) = Inr x2" "(x, y) = x2"
  then have "length y \<le> length (dropWhile (islower U) cs)"
    using read_number_length[of U 0 "dropWhile (islower U) cs" x y] by simp
  also have "\<dots> \<le> length cs" by (rule length_dropWhile_le)
  finally show "((U, stack, dict_add el n cur, y), (U, stack, cur, c # cs))
          \<in> measure (\<lambda>(U, stack, cur, cs). length cs)" by simp
next
  fix U :: unicode_db and stack :: "element_count list" and cur :: element_count
    and c :: codepoint and cs :: pystr
  show "((U, stack, cur, cs), (U, stack, cur, c # cs))
          \<in> measure (\<lambda>(U, stack, cur, cs). length cs)" by simp
qed

text \<open>\<open>str.split(sep)\<close> with a one-character separator: always at least one part.\<close>

fun split_on :: "codepoint \<Rightarrow> pystr \<Rightarrow> pystr list" where
  "split_on sep [] = [[]]"
| "split_on sep (c # cs) =
     (if c = sep then [] # split_on sep cs
      else (case split_on sep cs of
              [] \<Rightarrow> [[c]]
            | part # parts \<Rightarrow> (c # part) # parts))"

lemma split_on_part_shorter:
  "part \<in> set (split_on sep s) \<Longrightarrow> sep \<in> set s \<Longrightarrow> length part < length s"
proof (induction s arbitrary: part)
  case Nil
  then show ?case by simp
next
  case (Cons c cs)
  have le: "length q \<le> length cs" if "q \<in> set (split_on sep cs)" for q
    using that
  proof (induction cs arbitrary: q)
    case Nil
    then show ?case by simp
  next
    case (Cons d ds)
    then show ?case
      by (fastforce split: if_splits list.splits)
  qed
  show ?case
  proof (cases "c = sep")
    case True
    with Cons.prems have "part = [] \<or> part \<in> set (split_on sep cs)" by simp
    then show ?thesis using le by fastforce
  next
    case False
    with Cons.prems have mem: "sep \<in> set cs" by simp
    obtain p ps where sp: "split_on sep cs = p # ps"
      by (cases cs; cases "split_on sep cs"; simp split: if_splits list.splits)
    with Cons.prems False have "part = c # p \<or> part \<in> set ps" by simp
    then show ?thesis
    proof
      assume "part = c # p"
      moreover have "length p < length cs" using Cons.IH[of p] sp mem by simp
      ultimately show ?thesis by simp
    next
      assume "part \<in> set ps"
      then have "length part < length cs" using Cons.IH[of part] sp mem by simp
      then show ?thesis by simp
    qed
  qed
qed

text \<open>The hydrate loop: the counts of the parts are added up; the first part that raises
  ends the loop with its exception.\<close>

fun sum_parts :: "(error + element_count) list \<Rightarrow> element_count \<Rightarrow> error + element_count" where
  "sum_parts [] counts = Inr counts"
| "sum_parts (r # rs) counts =
     (case r of
        Inl e \<Rightarrow> Inl e
      | Inr part_counts \<Rightarrow> sum_parts rs (add_all 1 part_counts counts))"

function atom_count_in_formula :: "unicode_db \<Rightarrow> pystr \<Rightarrow> error + element_count" where
  "atom_count_in_formula U formula =
     (case validate_formula U formula of
        Inl e \<Rightarrow> Inl e
      | Inr _ \<Rightarrow>
          if MIDDLE_DOT \<in> set formula
          then sum_parts (map (atom_count_in_formula U) (split_on MIDDLE_DOT formula)) []
          else scan_formula U [] [] formula)"
  by pat_completeness auto
termination
  by (relation "measure (\<lambda>(U, formula). length formula)")
     (auto simp: split_on_part_shorter)

declare atom_count_in_formula.simps [simp del]

section \<open>The equation parser\<close>

text \<open>The fields of \<open>ChemEqParser\<close>. \<open>all_elements\<close> is an ordered dictionary whose values
  are all \<open>None\<close>: only its key order is kept.\<close>

record chem_eq_parser =
  reactants :: "pystr list"
  products :: "pystr list"
  chem_species :: "pystr list"
  chem_species_counts :: "element_count list"
  all_elements :: "pystr list"
  parsed_chem_eq :: "(pystr \<times> element_count) list"

definition init_parser :: chem_eq_parser where
  "init_parser = \<lparr> reactants = [], products = [], chem_species = [],
                    chem_species_counts = [], all_elements = [], parsed_chem_eq = [] \<rparr>"

text \<open>\<open>str.strip()\<close>.\<close>

definition strip :: "unicode_db \<Rightarrow> pystr \<Rightarrow> pystr" where
  "strip U s = rev (dropWhile (isspace U) (rev (dropWhile (isspace U) s)))"

text \<open>The separator pattern \<open>\s*(?:->|\<rightarrow>|=)\s*\<close> tried at the head of the text; the
  result is the text after the match. No separator character is whitespace, so the
  greedy \<open>\s*\<close> never has to give characters back.\<close>

definition match_token :: "pystr \<Rightarrow> pystr option" where
  "match_token s =
     (case s of
        [] \<Rightarrow> None
      | c # cs \<Rightarrow>
          if c = 45 \<and> cs \<noteq> [] \<and> hd cs = 62 then Some (tl cs)
          else if c = RIGHT_ARROW then Some cs
          else if c = 61 then Some cs
          else None)"

definition match_separator :: "unicode_db \<Rightarrow> pystr \<Rightarrow> pystr option" where
  "match_separator U s =
     (case match_token (dropWhile (isspace U) s) of
        None \<Rightarrow> None
      | Some rest \<Rightarrow> Some (dropWhile (isspace U) rest))"

lemma match_token_shorter: "match_token s = Some rest \<Longrightarrow> length rest < length s"
  by (cases s; cases "tl s") (auto simp: match_token_def split: if_splits)

lemma match_separator_shorter:
  assumes "match_separator U s = Some rest"
  shows "length rest < length s"
proof -
  from assms obtain r where r: "match_token (dropWhile (isspace U) s) = Some r"
    and rest: "rest = dropWhile (isspace U) r"
    by (auto simp: match_separator_def split: option.splits)
  have "length rest \<le> length r" unfolding rest by (rule length_dropWhile_le)
  also have "\<dots> < length (dropWhile (isspace U) s)" using r by (rule match_token_shorter)
  also have "\<dots> \<le> length s" by (rule length_dropWhile_le)
  finally show ?thesis .
qed

text \<open>\<open>re.split\<close> with that pattern: the text between the successive leftmost matches.
  \<open>part\<close> is the text read since the last match.\<close>

function re_split :: "unicode_db \<Rightarrow> pystr \<Rightarrow> pystr \<Rightarrow> pystr list" where
  "re_split U part [] = [part]"
| "re_split U part (c # cs) =
     (case match_separator U (c # cs) of
        Some rest \<Rightarrow> part # re_split U [] rest
      | None \<Rightarrow> re_split U (part @ [c]) cs)"
  by pat_completeness auto
termination
  by (relation "measure (\<lambda>(U, part, s). length s)")
     (auto dest: match_separator_shorter)

text \<open>\<open>_get_atom_count\<close>: the counts of every species, and the element universe in
  first-seen order.\<close>

fun add_keys :: "pystr list \<Rightarrow> pystr list \<Rightarrow> pystr list" where
  "add_keys [] all_els = all_els"
| "add_keys (element # keys) all_els =
     add_keys keys (if element \<in> set all_els then all_els else all_els @ [element])"

fun atom_count_loop :: "unicode_db \<Rightarrow> pystr list \<Rightarrow> chem_eq_parser \<Rightarrow> error + chem_eq_parser" where
  "atom_count_loop U [] self = Inr self"
| "atom_count_loop U (species # rest) self =
     (case atom_count_in_formula U species of
        Inl e \<Rightarrow> Inl e
      | Inr counts \<Rightarrow>
          atom_count_loop U rest
            (self\<lparr> chem_species_counts := chem_species_counts self @ [counts],
                   all_elements := add_keys (map fst counts) (all_elements self) \<rparr>))"

definition get_atom_count :: "unicode_db \<Rightarrow> chem_eq_parser \<Rightarrow> error + chem_eq_parser" where
  "get_atom_count U self =
     atom_count_loop U (chem_species self)
       (self\<lparr> chem_species_counts := [], all_elements := [] \<rparr>)"

text \<open>\<open>_get_species_dicts\<close>: for every species the signed counts over the element universe,
  stored under the species' text. A species that occurs twice overwrites its entry.\<close>

definition species_dict :: "pystr list \<Rightarrow> element_count \<Rightarrow> nat \<Rightarrow> nat \<Rightarrow> element_count" where
  "species_dict all_els counts i num_reactants =
     map (\<lambda>element.
            (element, if i \<ge> num_reactants then dict_get counts element * (- 1)
                      else dict_get counts element)) all_els"

fun species_dicts_loop ::
  "chem_eq_parser \<Rightarrow> nat \<Rightarrow> pystr list \<Rightarrow> (pystr \<times> element_count) list
     \<Rightarrow> error + (pystr \<times> element_count) list" where
  "species_dicts_loop self i [] parsed = Inr parsed"
| "species_dicts_loop self i (species # rest) parsed =
     (if i < length (chem_species_counts self)
      then species_dicts_loop self (Suc i) rest
             (AList.update species
                (species_dict (all_elements self) (chem_species_counts self ! i) i
                   (length (reactants self)))
                parsed)
      else Inl IndexError)"

definition get_species_dicts :: "chem_eq_parser \<Rightarrow> error + chem_eq_parser" where
  "get_species_dicts self =
     (case species_dicts_loop self 0 (chem_species self) [] of
        Inl e \<Rightarrow> Inl e
      | Inr parsed \<Rightarrow> Inr (self\<lparr> parsed_chem_eq := parsed \<rparr>))"

definition PLUS :: codepoint where
  "PLUS = 43"

definition equation_parser :: "unicode_db \<Rightarrow> chem_eq_parser \<Rightarrow> pystr \<Rightarrow> error + chem_eq_parser" where
  "equation_parser U self equation =
     (let parts = re_split U [] (strip U equation) in
      if length parts \<noteq> 2 then Inl (ValueError Invalid_equation)
      else
        (let self1 = self\<lparr> reactants := map (strip U) (split_on PLUS (parts ! 0)),
                            products := map (strip U) (split_on PLUS (parts ! 1)) \<rparr>;
             self2 = self1\<lparr> chem_species := reactants self1 @ products self1 \<rparr>
         in case get_atom_count U self2 of
              Inl e \<Rightarrow> Inl e
            | Inr self3 \<Rightarrow> get_species_dicts self3))"

section \<open>The matrix\<close>

record matrix_data =
  matrix :: "int list list"
  elements :: "pystr list"
  species :: "pystr list"

fun matrix_row :: "(pystr \<times> element_count) list \<Rightarrow> pystr \<Rightarrow> pystr list \<Rightarrow> error + int list" where
  "matrix_row parsed element [] = Inr []"
| "matrix_row parsed element (sp # rest) =
     (case map_of parsed sp of
        None \<Rightarrow> Inl KeyError
      | Some d \<Rightarrow>
          (case matrix_row parsed element rest of
             Inl e \<Rightarrow> Inl e
           | Inr row \<Rightarrow> Inr (dict_get d element # row)))"

fun matrix_rows :: "(pystr \<times> element_count) list \<Rightarrow> pystr list \<Rightarrow> pystr list \<Rightarrow> error + int list list" where
  "matrix_rows parsed sps [] = Inr []"
| "matrix_rows parsed sps (element # rest) =
     (case matrix_row parsed element sps of
        Inl e \<Rightarrow> Inl e
      | Inr row \<Rightarrow>
          (case matrix_rows parsed sps rest of
             Inl e \<Rightarrow> Inl e
           | Inr rows \<Rightarrow> Inr (row # rows)))"

definition get_matrix :: "chem_eq_parser \<Rightarrow> error + matrix_data" where
  "get_matrix self =
     (if parsed_chem_eq self = [] then Inl (ValueError Need_to_parse)
      else
        (case matrix_rows (parsed_chem_eq self) (chem_species self) (all_elements self) of
           Inl e \<Rightarrow> Inl e
         | Inr m \<Rightarrow> Inr \<lparr> matrix = m, elements = all_elements self,
                            species = chem_species self \<rparr>))"

section \<open>Exact linear algebra\<close>

text \<open>
  \<open>Matrix\<close>, \<open>Matrix.nullspace\<close>, \<open>lcm\<close> and \<open>nsimplify\<close> are the computer algebra
  library's, not the program's. They are modelled from the library: a matrix of integers is
  reduced over the rationals to its reduced row echelon form (which is unique, so the order
  of the row operations does not show in the result) by fraction-free cancellation above
  and below each pivot and a final division of each pivot row; \<open>nullspace\<close> then builds,
  for every column without a pivot, the vector that has 1 at that column and the negated
  entry of the reduced matrix at every pivot column.
\<close>

type_synonym rmatrix = "rat list list"

text \<open>\<open>Matrix(rows)\<close>: the column count is the length of the first row, 0 for no rows.\<close>

definition Matrix :: "int list list \<Rightarrow> rmatrix" where
  "Matrix m = map (map rat_of_int) m"

definition cols_of :: "rmatrix \<Rightarrow> nat" where
  "cols_of mat = (case mat of [] \<Rightarrow> 0 | r # _ \<Rightarrow> length r)"

definition row_swap :: "nat \<Rightarrow> nat \<Rightarrow> rmatrix \<Rightarrow> rmatrix" where
  "row_swap i j mat = mat[i := mat ! j, j := mat ! i]"

text \<open>The row operation \<open>row_i := a * row_i - b * row_j\<close>.\<close>

definition cross_cancel :: "rat \<Rightarrow> rat list \<Rightarrow> rat \<Rightarrow> rat list \<Rightarrow> rat list" where
  "cross_cancel a row_i b row_j = map2 (\<lambda>x y. a * x - b * y) row_i row_j"

definition eliminate :: "nat \<Rightarrow> nat \<Rightarrow> rmatrix \<Rightarrow> rmatrix" where
  "eliminate piv_row piv_col mat =
     (let pivot_val = mat ! piv_row ! piv_col in
      map (\<lambda>row.
             if row = piv_row then mat ! row
             else (let val = mat ! row ! piv_col in
                   if val = 0 then mat ! row
                   else cross_cancel pivot_val (mat ! row) val (mat ! piv_row)))
          [0..<length mat])"

function row_reduce ::
  "nat \<Rightarrow> nat \<Rightarrow> rmatrix \<Rightarrow> nat \<Rightarrow> nat \<Rightarrow> nat list \<Rightarrow> rmatrix \<times> nat list" where
  "row_reduce rows cols mat piv_row piv_col pivot_cols =
     (if piv_col < cols \<and> piv_row < rows then
        (case find (\<lambda>row. mat ! row ! piv_col \<noteq> 0) [piv_row..<rows] of
           None \<Rightarrow> row_reduce rows cols mat piv_row (Suc piv_col) pivot_cols
         | Some pivot \<Rightarrow>
             row_reduce rows cols (eliminate piv_row piv_col (row_swap piv_row pivot mat))
               (Suc piv_row) piv_col (pivot_cols @ [piv_col]))
      else (mat, pivot_cols))"
  by pat_completeness auto
termination
  by (relation "measure (\<lambda>(rows, cols, mat, piv_row, piv_col, pivot_cols).
                           (cols - piv_col) + (rows - piv_row))") auto

declare row_reduce.simps [simp del]

definition normalize_row :: "nat \<Rightarrow> rat list \<Rightarrow> rat list" where
  "normalize_row piv_j row =
     (let pivot_val = row ! piv_j in
      map (\<lambda>p. if p < piv_j then row ! p
                else if p = piv_j then 1
                else row ! p / pivot_val) [0..<length row])"

fun normalize_rows :: "nat \<Rightarrow> nat list \<Rightarrow> rmatrix \<Rightarrow> rmatrix" where
  "normalize_rows piv_i [] mat = mat"
| "normalize_rows piv_i (piv_j # rest) mat =
     normalize_rows (Suc piv_i) rest (mat[piv_i := normalize_row piv_j (mat ! piv_i)])"

definition rref :: "rmatrix \<Rightarrow> rmatrix \<times> nat list" where
  "rref mat =
     (case row_reduce (length mat) (cols_of mat) mat 0 0 [] of
        (reduced, pivots) \<Rightarrow> (normalize_rows 0 pivots reduced, pivots))"

fun back_substitute :: "rmatrix \<Rightarrow> nat \<Rightarrow> nat \<Rightarrow> nat list \<Rightarrow> rat list \<Rightarrow> rat list" where
  "back_substitute reduced free_var piv_row [] vec = vec"
| "back_substitute reduced free_var piv_row (piv_col # pivots) vec =
     back_substitute reduced free_var (Suc piv_row) pivots
       (vec[piv_col := vec ! piv_col - reduced ! piv_row ! free_var])"

definition nullspace :: "rmatrix \<Rightarrow> rat list list" where
  "nullspace mat =
     (case rref mat of
        (reduced, pivots) \<Rightarrow>
          map (\<lambda>free_var.
                 back_substitute reduced free_var 0 pivots
                   ((replicate (cols_of mat) 0)[free_var := 1]))
              (filter (\<lambda>i. i \<notin> set pivots) [0..<cols_of mat]))"

text \<open>\<open>nsimplify\<close> is applied to exact rationals only: an integer is returned as it is,
  and a fraction is recovered from its numerical value, which gives the fraction back for
  the small denominators that atom counts produce. It is taken as the identity.\<close>

definition nsimplify :: "rat \<Rightarrow> rat" where
  "nsimplify elem = elem"

text \<open>\<open>as_numer_denom\<close>: numerator and positive denominator in lowest terms.\<close>

definition as_numer_denom :: "rat \<Rightarrow> int \<times> int" where
  "as_numer_denom elem = quotient_of elem"

definition lcm_list :: "int list \<Rightarrow> int" where
  "lcm_list ds = fold lcm ds 1"

definition is_integer :: "rat \<Rightarrow> bool" where
  "is_integer coeff = (snd (quotient_of coeff) = 1)"

section \<open>The balancer\<close>

text \<open>What \<open>get_stoic\<close> returns: the coefficients or \<open>None\<close>, or, with \<open>show_work\<close>, the
  tuple of the coefficients, the matrix data, the null-space vector, the simplified vector,
  the multiplier and the raw coefficients, each possibly \<open>None\<close>.\<close>

datatype result =
    Coeffs "int list option"
  | Work "int list option" "matrix_data option" "rat list option" "rat list option"
         "int option" "rat list option"

definition positive_integers :: "rat list \<Rightarrow> bool" where
  "positive_integers coeffs = list_all (\<lambda>coeff. is_integer coeff \<and> coeff > 0) coeffs"

definition final_coeffs :: "rat list \<Rightarrow> int list option" where
  "final_coeffs raw_coeffs =
     (if positive_integers raw_coeffs then Some (map floor raw_coeffs)
      else if list_ex (\<lambda>coeff. coeff < 0) raw_coeffs then
        (let abs_coeffs = map abs raw_coeffs in
         if positive_integers abs_coeffs then Some (map floor abs_coeffs) else None)
      else None)"

text \<open>The least common multiple of the denominators. Every entry is a number of the
  library and has \<open>as_numer_denom\<close>, so the branch that appends 1 is never taken.\<close>

definition multiplier_of :: "rat list \<Rightarrow> int" where
  "multiplier_of simplified_vec =
     (let denominators = map (\<lambda>elem. snd (as_numer_denom elem)) simplified_vec in
      if denominators \<noteq> [] then lcm_list denominators else 1)"

definition raw_coeffs_of :: "rat list \<Rightarrow> rat list" where
  "raw_coeffs_of simplified_vec =
     map (\<lambda>elem. elem * rat_of_int (multiplier_of simplified_vec)) simplified_vec"

definition cannot_balance :: "string list" where
  "cannot_balance =
     [''Equation cannot be balanced. The nullspace is empty.'',
      ''This usually means the equation is invalid or impossible to balance. If you have catalyst(s) in the equation, please remove them and try again.'']"

text \<open>The body of \<open>get_stoic\<close> from the matrix on: the lines printed and the value
  returned.\<close>

definition solve :: "matrix_data \<Rightarrow> bool \<Rightarrow> string list \<times> result" where
  "solve md show_work =
     (case nullspace (Matrix (matrix md)) of
        [] \<Rightarrow>
          (if show_work then ([], Work None (Some md) None None None None)
           else (cannot_balance, Coeffs None))
      | vec # _ \<Rightarrow>
          (let simplified_vec = map nsimplify vec;
               raw_coeffs = raw_coeffs_of simplified_vec;
               final = final_coeffs raw_coeffs
           in if show_work
              then ([], Work final (Some md) (Some vec) (Some simplified_vec)
                          (Some (multiplier_of simplified_vec)) (Some raw_coeffs))
              else ([], Coeffs final)))"

text \<open>The \<open>try\<close> block of \<open>get_stoic\<close>.\<close>

definition get_stoic_try :: "unicode_db \<Rightarrow> pystr \<Rightarrow> bool \<Rightarrow> error + (string list \<times> result)" where
  "get_stoic_try U equation show_work =
     (case equation_parser U init_parser equation of
        Inl e \<Rightarrow> Inl e
      | Inr parser \<Rightarrow>
          (case get_matrix parser of
             Inl e \<Rightarrow> Inl e
           | Inr md \<Rightarrow> Inr (solve md show_work)))"

text \<open>The exception classes and \<open>except Exception\<close>: both \<open>IndexError\<close> and \<open>KeyError\<close>
  derive from \<open>LookupError\<close>, that and \<open>ValueError\<close> from \<open>Exception\<close>.\<close>

datatype exception_class =
  BaseException_class | Exception_class | LookupError_class
  | IndexError_class | KeyError_class | ValueError_class

fun class_of :: "error \<Rightarrow> exception_class" where
  "class_of IndexError = IndexError_class"
| "class_of KeyError = KeyError_class"
| "class_of (ValueError msg) = ValueError_class"

fun base_class :: "exception_class \<Rightarrow> exception_class option" where
  "base_class BaseException_class = None"
| "base_class Exception_class = Some BaseException_class"
| "base_class LookupError_class = Some Exception_class"
| "base_class IndexError_class = Some LookupError_class"
| "base_class KeyError_class = Some LookupError_class"
| "base_class ValueError_class = Some Exception_class"

fun derives_from :: "nat \<Rightarrow> exception_class \<Rightarrow> exception_class \<Rightarrow> bool" where
  "derives_from 0 c d = (c = d)"
| "derives_from (Suc depth) c d =
     (c = d \<or> (case base_class c of None \<Rightarrow> False | Some b \<Rightarrow> derives_from depth b d))"

definition isinstance :: "error \<Rightarrow> exception_class \<Rightarrow> bool" where
  "isinstance e c = derives_from 3 (class_of e) c"

text \<open>\<open>get_stoic\<close>: an exception of class \<open>Exception\<close> raised in the \<open>try\<close> block is
  swallowed and \<open>None\<close> returned (six of them with \<open>show_work\<close>); any other exception
  would leave the function.\<close>

definition get_stoic :: "unicode_db \<Rightarrow> pystr \<Rightarrow> bool \<Rightarrow> error + (string list \<times> result)" where
  "get_stoic U equation show_work =
     (case get_stoic_try U equation show_work of
        Inl e \<Rightarrow>
          if isinstance e Exception_class
          then (if show_work then Inr ([], Work None None None None None None)
                else Inr ([], Coeffs None))
          else Inl e
      | Inr r \<Rightarrow> Inr r)"

section \<open>Properties used to state the claims\<close>


text \<open>For every element (matrix row), the sum over the species of the signed atom count
  times the coefficient.\<close>

definition signed_totals :: "int list list \<Rightarrow> int list \<Rightarrow> int list" where
  "signed_totals m coeffs = map (\<lambda>row. sum_list (map2 (*) row coeffs)) m"

text \<open>The pattern the pre-validation rejects: a formula that ends in a digit, has a letter
  before its last character, has an uppercase character, and contains the digit 0 or 1.\<close>

definition suspicious :: "unicode_db \<Rightarrow> pystr \<Rightarrow> bool" where
  "suspicious U formula =
     (formula \<noteq> [] \<and> isdigit U (last formula) \<and> list_ex (isalpha U) (butlast formula)
      \<and> list_ex (isupper U) formula \<and> (48 \<in> set formula \<or> 49 \<in> set formula))"

text \<open>The formulas \<open>atom_count_in_formula\<close> refuses before it scans them.\<close>

definition rejected :: "unicode_db \<Rightarrow> pystr \<Rightarrow> bool" where
  "rejected U formula = (formula = [] \<or> suspicious U formula)"


text \<open>The number of separator tokens (\<open>->\<close>, the arrow, \<open>=\<close>) in a text, read from the
  left without overlap.\<close>

function separator_count :: "pystr \<Rightarrow> nat" where
  "separator_count [] = 0"
| "separator_count (c # cs) =
     (case match_token (c # cs) of
        Some rest \<Rightarrow> Suc (separator_count rest)
      | None \<Rightarrow> separator_count cs)"
  by pat_completeness auto
termination
  by (relation "measure length") (auto dest: match_token_shorter)

text \<open>The species of an equation with one separator: the parts of both sides between plus
  signs, stripped, reactants first.\<close>

definition species_of :: "unicode_db \<Rightarrow> pystr \<Rightarrow> pystr list" where
  "species_of U equation =
     (let parts = re_split U [] (strip U equation) in
      map (strip U) (split_on PLUS (parts ! 0)) @ map (strip U) (split_on PLUS (parts ! 1)))"

section \<open>Auxiliary lemmas\<close>

subsection \<open>Exceptions and return shapes\<close>


lemma isinstance_Exception: "isinstance e Exception_class"
  by (cases e) (simp_all add: isinstance_def eval_nat_numeral)

lemma solve_shape:
  "(\<exists>out final. solve md False = (out, Coeffs final))
   \<and> (\<exists>out final m vec svec mult raw. solve md True = (out, Work final m vec svec mult raw))"
  by (simp add: solve_def Let_def split: list.splits)


lemma collect_elements_nonempty:
  "(collect_elements U s \<noteq> []) = list_ex (isupper U) s"
  by (induction s) auto

lemma replace_absent: "a \<noteq> b \<Longrightarrow> a \<notin> set (replace a b s)"
  by (auto simp: replace_def)

lemma replace_id: "a \<notin> set s \<Longrightarrow> replace a b s = s"
  by (induction s) (auto simp: replace_def)

lemma suggested_differs:
  "(suggest formula common_errors formula \<noteq> formula) = (48 \<in> set formula \<or> 49 \<in> set formula)"
proof (cases "48 \<in> set formula")
  case z: True
  have "48 \<notin> set (suggest formula common_errors formula)"
    using z by (auto simp: common_errors_def replace_def)
  with z show ?thesis by metis
next
  case nz: False
  show ?thesis
  proof (cases "49 \<in> set formula")
    case True
    have "49 \<notin> set (suggest formula common_errors formula)"
      using True nz by (auto simp: common_errors_def replace_def)
    with True show ?thesis by metis
  next
    case False
    with nz show ?thesis by (simp add: common_errors_def)
  qed
qed

lemma validate_formula_cases:
  "validate_formula U formula =
     (if formula = [] then Inl IndexError
      else if suspicious U formula
      then Inl (ValueError (Invalid_formula formula (suggest formula common_errors formula)))
      else Inr ())"
  unfolding validate_formula_def Let_def suspicious_def
  using collect_elements_nonempty[of U formula] suggested_differs[of formula]
  by auto

subsection \<open>Validation and scanning\<close>


lemma suggest_eq:
  "suggest formula common_errors formula = replace 49 73 (replace 48 79 formula)"
proof -
  have a: "49 \<in> set (replace 48 79 formula) \<longleftrightarrow> 49 \<in> set formula"
    by (auto simp: replace_def)
  show ?thesis
    using replace_id[of 48 formula 79] replace_id[of 49 "replace 48 79 formula" 73] a
    by (auto simp: common_errors_def)
qed


lemma named_digit_int:
  "named_cp c \<Longrightarrow> isdigit U c \<Longrightarrow> \<exists>d. int_of_char U c = Some d"
  by (auto simp: isdigit_def int_of_char_def split: if_splits)

lemma read_number_named:
  "list_all named_cp cs \<Longrightarrow>
     \<exists>m rest. read_number U acc cs = Inr (m, rest) \<and> list_all named_cp rest"
proof (induction cs arbitrary: acc)
  case Nil
  then show ?case by simp
next
  case (Cons c cs)
  show ?case
  proof (cases "isdigit U c")
    case True
    with Cons.prems obtain d where d: "int_of_char U c = Some d"
      using named_digit_int[of c U] by auto
    from Cons.prems have "list_all named_cp cs" by simp
    from Cons.IH[OF this, of "acc * 10 + d"] True d show ?thesis by simp
  next
    case False
    with Cons.prems show ?thesis by simp
  qed
qed

lemma list_all_dropWhile: "list_all P cs \<Longrightarrow> list_all P (dropWhile Q cs)"
  by (induction cs) auto

lemma scan_formula_named:
  "list_all named_cp cs \<Longrightarrow> \<exists>d. scan_formula U stack cur cs = Inr d"
proof (induction U stack cur cs rule: scan_formula.induct)
  case (1 U stack current_element)
  then show ?case by simp
next
  case (2 U stack current_element c cs)
  from "2.prems" have tl: "list_all named_cp cs" by simp
  show ?case
  proof (cases "c = 40")
    case True
    with "2.IH"(1) tl show ?thesis by simp
  next
    case n40: False
    show ?thesis
    proof (cases "c = 41")
      case True
      from read_number_named[OF tl, of U 0] obtain m rest
        where rn: "read_number U 0 cs = Inr (m, rest)" and nr: "list_all named_cp rest"
        by blast
      show ?thesis
      proof (cases "stack \<noteq> []")
        case s: True
        from "2.IH"(2)[OF n40 True rn refl refl s nr] n40 True rn s
        show ?thesis by (simp add: Let_def)
      next
        case s: False
        from "2.IH"(3)[OF n40 True rn refl refl s nr] n40 True rn s
        show ?thesis by (simp add: Let_def)
      qed
    next
      case n41: False
      show ?thesis
      proof (cases "isupper U c")
        case True
        have "list_all named_cp (dropWhile (islower U) cs)"
          using tl by (rule list_all_dropWhile)
        from read_number_named[OF this, of U 0] obtain m rest
          where rn: "read_number U 0 (dropWhile (islower U) cs) = Inr (m, rest)"
            and nr: "list_all named_cp rest"
          by blast
        from "2.IH"(4)[OF n40 n41 True refl rn refl nr] n40 n41 True rn
        show ?thesis by (simp add: Let_def)
      next
        case False
        from "2.IH"(5)[OF n40 n41 False tl] n40 n41 False
        show ?thesis by simp
      qed
    qed
  qed
qed


lemma split_on_nonempty: "split_on sep s \<noteq> []"
  by (induction s) (auto split: list.splits)

lemma split_on_parts:
  "part \<in> set (split_on sep s) \<Longrightarrow> sep \<notin> set part \<and> set part \<subseteq> set s"
proof (induction s arbitrary: part)
  case Nil
  then show ?case by simp
next
  case (Cons c cs)
  show ?case
  proof (cases "c = sep")
    case True
    with Cons.prems have "part = [] \<or> part \<in> set (split_on sep cs)" by simp
    then show ?thesis using Cons.IH by auto
  next
    case False
    obtain p ps where sp: "split_on sep cs = p # ps"
      using split_on_nonempty[of sep cs] by (cases "split_on sep cs") auto
    with Cons.prems False have "part = c # p \<or> part \<in> set ps" by simp
    then show ?thesis
    proof
      assume "part = c # p"
      moreover have "sep \<notin> set p \<and> set p \<subseteq> set cs" using Cons.IH[of p] sp by simp
      ultimately show ?thesis using False by auto
    next
      assume "part \<in> set ps"
      then have "sep \<notin> set part \<and> set part \<subseteq> set cs" using Cons.IH[of part] sp by simp
      then show ?thesis by auto
    qed
  qed
qed

lemma split_on_absent: "sep \<notin> set s \<Longrightarrow> split_on sep s = [s]"
  by (induction s) auto

lemma sum_parts_isl: "isl (sum_parts rs counts) = list_ex isl rs"
  by (induction rs arbitrary: counts) (auto split: sum.splits)

lemma atom_count_plain:
  assumes "MIDDLE_DOT \<notin> set formula" and "list_all named_cp formula"
  shows "isl (atom_count_in_formula U formula) = rejected U formula"
proof (cases "rejected U formula")
  case True
  then have "isl (validate_formula U formula)"
    by (auto simp: validate_formula_cases rejected_def)
  then show ?thesis using True
    by (subst atom_count_in_formula.simps) (auto split: sum.splits)
next
  case False
  then have v: "validate_formula U formula = Inr ()"
    by (auto simp: validate_formula_cases rejected_def)
  from scan_formula_named[OF assms(2)] obtain d
    where "scan_formula U [] [] formula = Inr d" by blast
  with v assms(1) False show ?thesis
    by (subst atom_count_in_formula.simps) simp
qed

subsection \<open>The null-space vector and its scaling\<close>















subsection \<open>Separators and the errors of the parser\<close>

lemma space_not_token: "isspace U c \<Longrightarrow> match_token (c # cs) = None"
  by (auto simp: isspace_def match_token_def named_cp_def RIGHT_ARROW_def split: if_splits)

lemma count_spaces: "list_all (isspace U) ws \<Longrightarrow> separator_count ws = 0"
  by (induction ws) (auto simp: space_not_token)

lemma count_dropWhile_space: "separator_count (dropWhile (isspace U) s) = separator_count s"
  by (induction s) (auto simp: space_not_token)

lemma count_match: "match_token s = Some rest \<Longrightarrow> separator_count s = Suc (separator_count rest)"
  by (cases s) (auto simp: match_token_def)

lemma re_split_length: "length (re_split U part s) = Suc (separator_count s)"
proof (induction U part s rule: re_split.induct)
  case (1 U part)
  then show ?case by simp
next
  case (2 U part c cs)
  show ?case
  proof (cases "match_separator U (c # cs)")
    case None
    then have n: "match_token (dropWhile (isspace U) (c # cs)) = None"
      by (auto simp: match_separator_def split: option.splits)
    have "match_token (c # cs) = None"
    proof (cases "isspace U c")
      case True
      then show ?thesis by (rule space_not_token)
    next
      case False
      with n show ?thesis by simp
    qed
    with None "2.IH"(1) show ?thesis by simp
  next
    case (Some rest)
    then obtain r where r: "match_token (dropWhile (isspace U) (c # cs)) = Some r"
      and rest: "rest = dropWhile (isspace U) r"
      by (auto simp: match_separator_def split: option.splits)
    have "separator_count (c # cs) = separator_count (dropWhile (isspace U) (c # cs))"
      by (simp only: count_dropWhile_space)
    also have "\<dots> = Suc (separator_count r)" using r by (rule count_match)
    also have "\<dots> = Suc (separator_count rest)"
      unfolding rest by (simp only: count_dropWhile_space)
    finally have "separator_count (c # cs) = Suc (separator_count rest)" .
    with Some "2.IH"(2) show ?thesis by simp
  qed
qed

lemma match_token_append:
  assumes "list_all (isspace U) ws"
  shows "match_token ((c # cs) @ ws) = map_option (\<lambda>r. r @ ws) (match_token (c # cs))"
proof (cases ws)
  case Nil
  then show ?thesis by (simp add: option.map_ident)
next
  case (Cons w ws')
  with assms have "isspace U w" by simp
  then have "w \<noteq> 62" by (auto simp: isspace_def)
  with Cons show ?thesis
    by (cases cs) (auto simp: match_token_def)
qed

lemma count_append_spaces:
  "list_all (isspace U) ws \<Longrightarrow> separator_count (s @ ws) = separator_count s"
proof (induction s rule: separator_count.induct)
  case 1
  then show ?case by (simp add: count_spaces)
next
  case (2 c cs)
  from match_token_append[OF "2.prems", of c cs]
  have m: "match_token (c # cs @ ws) = map_option (\<lambda>r. r @ ws) (match_token (c # cs))"
    by simp
  show ?case
  proof (cases "match_token (c # cs)")
    case None
    with m "2.IH"(1) "2.prems" show ?thesis by simp
  next
    case (Some r)
    with m "2.IH"(2) "2.prems" show ?thesis by simp
  qed
qed

lemma count_strip: "separator_count (strip U s) = separator_count s"
proof -
  define t where "t = dropWhile (isspace U) s"
  have "t = rev (dropWhile (isspace U) (rev t)) @ rev (takeWhile (isspace U) (rev t))"
    by (metis rev_append rev_rev_ident takeWhile_dropWhile_id)
  moreover have "list_all (isspace U) (rev (takeWhile (isspace U) (rev t)))"
    by (auto simp: list_all_iff dest: set_takeWhileD)
  ultimately have "separator_count t = separator_count (rev (dropWhile (isspace U) (rev t)))"
    using count_append_spaces by metis
  then show ?thesis
    unfolding strip_def t_def by (simp add: count_dropWhile_space)
qed

lemma parts_length: "(length (re_split U [] (strip U equation)) \<noteq> 2) = (separator_count equation \<noteq> 1)"
  by (simp add: re_split_length count_strip)

lemma read_number_error:
  "read_number U acc cs = Inl e \<Longrightarrow> e \<noteq> ValueError Invalid_equation"
  by (induction cs arbitrary: acc) (auto split: if_splits option.splits)

lemma scan_formula_error:
  "scan_formula U stack cur cs = Inl e \<Longrightarrow> e \<noteq> ValueError Invalid_equation"
proof (induction U stack cur cs rule: scan_formula.induct)
  case (1 U stack current_element)
  then show ?case by simp
next
  case (2 U stack current_element c cs)
  show ?case
  proof (cases "c = 40")
    case True
    with "2.prems" "2.IH"(1) show ?thesis by simp
  next
    case n40: False
    show ?thesis
    proof (cases "c = 41")
      case True
      show ?thesis
      proof (cases "read_number U 0 cs")
        case (Inl e')
        with "2.prems" n40 True have "e = e'" by simp
        with Inl show ?thesis using read_number_error by blast
      next
        case (Inr mr)
        obtain m rest where mr: "mr = (m, rest)" by (cases mr)
        show ?thesis
        proof (cases "stack \<noteq> []")
          case s: True
          from "2.prems" n40 True Inr mr s
          have "scan_formula U (butlast stack)
                  (add_all (if m \<noteq> 0 then m else 1) current_element (last stack)) rest = Inl e"
            by (simp add: Let_def)
          with "2.IH"(2)[OF n40 True Inr[unfolded mr] refl refl s] show ?thesis by simp
        next
          case s: False
          from "2.prems" n40 True Inr mr s
          have "scan_formula U stack current_element rest = Inl e"
            by (simp add: Let_def)
          with "2.IH"(3)[OF n40 True Inr[unfolded mr] refl refl s] show ?thesis by simp
        qed
      qed
    next
      case n41: False
      show ?thesis
      proof (cases "isupper U c")
        case True
        show ?thesis
        proof (cases "read_number U 0 (dropWhile (islower U) cs)")
          case (Inl e')
          with "2.prems" n40 n41 True have "e = e'" by (simp add: Let_def)
          with Inl show ?thesis using read_number_error by blast
        next
          case (Inr mr)
          obtain m rest where mr: "mr = (m, rest)" by (cases mr)
          from "2.prems" n40 n41 True Inr mr
          have "scan_formula U stack
                  (dict_add (c # takeWhile (islower U) cs) (if m \<noteq> 0 then m else 1)
                     current_element) rest = Inl e"
            by (simp add: Let_def)
          with "2.IH"(4)[OF n40 n41 True refl Inr[unfolded mr] refl] show ?thesis by simp
        qed
      next
        case False
        with "2.prems" n40 n41 "2.IH"(5) show ?thesis by simp
      qed
    qed
  qed
qed

lemma validate_formula_error:
  "validate_formula U formula = Inl e \<Longrightarrow> e \<noteq> ValueError Invalid_equation"
  by (auto simp: validate_formula_cases split: if_splits)

lemma sum_parts_error: "sum_parts rs counts = Inl e \<Longrightarrow> Inl e \<in> set rs"
  by (induction rs arbitrary: counts) (auto split: sum.splits)

lemma atom_count_plain_error:
  assumes "MIDDLE_DOT \<notin> set formula" and "atom_count_in_formula U formula = Inl e"
  shows "e \<noteq> ValueError Invalid_equation"
proof (cases "validate_formula U formula")
  case (Inl e')
  with assms(2) have "e = e'" by (subst (asm) atom_count_in_formula.simps) simp
  with Inl show ?thesis using validate_formula_error by blast
next
  case (Inr u)
  with assms have "scan_formula U [] [] formula = Inl e"
    by (subst (asm) atom_count_in_formula.simps) simp
  then show ?thesis by (rule scan_formula_error)
qed

lemma atom_count_error:
  assumes "atom_count_in_formula U formula = Inl e"
  shows "e \<noteq> ValueError Invalid_equation"
proof (cases "MIDDLE_DOT \<in> set formula")
  case False
  then show ?thesis using assms by (rule atom_count_plain_error)
next
  case True
  show ?thesis
  proof (cases "validate_formula U formula")
    case (Inl e')
    with assms have "e = e'" by (subst (asm) atom_count_in_formula.simps) simp
    with Inl show ?thesis using validate_formula_error by blast
  next
    case (Inr u)
    with assms True
    have "sum_parts (map (atom_count_in_formula U) (split_on MIDDLE_DOT formula)) [] = Inl e"
      by (subst (asm) atom_count_in_formula.simps) simp
    then have "Inl e \<in> set (map (atom_count_in_formula U) (split_on MIDDLE_DOT formula))"
      by (rule sum_parts_error)
    then obtain part where p: "part \<in> set (split_on MIDDLE_DOT formula)"
      and pe: "atom_count_in_formula U part = Inl e" by auto
    from split_on_parts[OF p] have "MIDDLE_DOT \<notin> set part" by simp
    then show ?thesis using pe by (rule atom_count_plain_error)
  qed
qed

lemma atom_count_loop_error:
  "atom_count_loop U sps self = Inl e \<Longrightarrow> e \<noteq> ValueError Invalid_equation"
proof (induction sps arbitrary: self)
  case Nil
  then show ?case by simp
next
  case (Cons sp sps)
  show ?case
  proof (cases "atom_count_in_formula U sp")
    case (Inl e')
    with Cons.prems have "e = e'" by simp
    with Inl show ?thesis using atom_count_error by blast
  next
    case (Inr counts)
    with Cons.prems Cons.IH show ?thesis by simp
  qed
qed

lemma species_dicts_loop_error:
  "species_dicts_loop self i sps parsed = Inl e \<Longrightarrow> e = IndexError"
  by (induction sps arbitrary: i parsed) (auto split: if_splits)

lemma get_species_dicts_error:
  "get_species_dicts self = Inl e \<Longrightarrow> e = IndexError"
  by (auto simp: get_species_dicts_def split: sum.splits dest: species_dicts_loop_error)

lemma atom_count_loop_isl:
  "isl (atom_count_loop U sps self) = list_ex (\<lambda>sp. isl (atom_count_in_formula U sp)) sps"
  by (induction sps arbitrary: self) (auto split: sum.splits)

lemma atom_count_loop_fields:
  "atom_count_loop U sps self = Inr self' \<Longrightarrow>
     length (chem_species_counts self') = length (chem_species_counts self) + length sps
     \<and> chem_species self' = chem_species self"
proof (induction sps arbitrary: self)
  case Nil
  then show ?case by simp
next
  case (Cons sp sps)
  from Cons.prems obtain counts where c: "atom_count_in_formula U sp = Inr counts"
    and l: "atom_count_loop U sps
              (self\<lparr> chem_species_counts := chem_species_counts self @ [counts],
                     all_elements := add_keys (map fst counts) (all_elements self) \<rparr>) = Inr self'"
    by (auto split: sum.splits)
  from Cons.IH[OF l] show ?case by simp
qed

lemma species_dicts_loop_ok:
  "i + length sps \<le> length (chem_species_counts self) \<Longrightarrow>
     \<exists>parsed'. species_dicts_loop self i sps parsed = Inr parsed'"
  by (induction sps arbitrary: i parsed) auto

lemma get_species_dicts_ok:
  "length (chem_species self) \<le> length (chem_species_counts self) \<Longrightarrow>
     \<exists>self'. get_species_dicts self = Inr self'"
  using species_dicts_loop_ok[of 0 "chem_species self" self "[]"]
  by (auto simp: get_species_dicts_def)

lemma get_atom_count_then_dicts:
  assumes "get_atom_count U self = Inr self'"
  shows "\<exists>self''. get_species_dicts self' = Inr self''"
proof -
  from assms atom_count_loop_fields[of U "chem_species self"
        "self\<lparr> chem_species_counts := [], all_elements := [] \<rparr>" self']
  have "length (chem_species self') \<le> length (chem_species_counts self')"
    by (simp add: get_atom_count_def)
  then show ?thesis by (rule get_species_dicts_ok)
qed

section \<open>Reference inputs\<close>

text \<open>C8: \<open>get_stoic\<close> on \<open>H2 + O2 -> H2O\<close> returns the coefficients 2, 1, 2, in the order
  of the species H2, O2, H2O, and prints nothing.\<close>

theorem get_stoic_water:
  "get_stoic U (str ''H2 + O2 -> H2O'') False = Inr ([], Coeffs (Some [2, 1, 2]))"
  by code_simp

text \<open>C2, as the program has it: the atom counts of \<open>H2O\<close>, \<open>Mg(OH)2\<close> and \<open>Fe(NO3)3\<close>
  are as stated; in the hydrate \<open>CuSO4\<cdot>5H2O\<close> the leading 5 of the second part is
  skipped like any unrecognised character, so the part counts as one \<open>H2O\<close> and the
  result is Cu 1, S 1, O 5, H 2.\<close>

theorem atom_count_reference_inputs:
  "atom_count_in_formula U (str ''H2O'') = Inr [(str ''H'', 2), (str ''O'', 1)]
   \<and> atom_count_in_formula U (str ''Mg(OH)2'')
       = Inr [(str ''Mg'', 1), (str ''O'', 2), (str ''H'', 2)]
   \<and> atom_count_in_formula U (str ''Fe(NO3)3'')
       = Inr [(str ''Fe'', 1), (str ''N'', 3), (str ''O'', 9)]
   \<and> atom_count_in_formula U (str ''CuSO4'' @ [MIDDLE_DOT] @ str ''5H2O'')
       = Inr [(str ''Cu'', 1), (str ''S'', 1), (str ''O'', 5), (str ''H'', 2)]"
  by code_simp

text \<open>C2 as stated fails on the hydrate: the program's count of O is 5 and of H is 2,
  not 9 and 10.\<close>

theorem atom_count_hydrate_counterexample:
  "atom_count_in_formula ascii_db (str ''CuSO4'' @ [MIDDLE_DOT] @ str ''5H2O'')
     = Inr [(str ''Cu'', 1), (str ''S'', 1), (str ''O'', 5), (str ''H'', 2)]
   \<and> dict_get [(str ''Cu'', 1), (str ''S'', 1), (str ''O'', 5), (str ''H'', 2)] (str ''O'') \<noteq> 9
   \<and> dict_get [(str ''Cu'', 1), (str ''S'', 1), (str ''O'', 5), (str ''H'', 2)] (str ''H'') \<noteq> 10"
  by code_simp

section \<open>Exceptions never leave \<open>get_stoic\<close>\<close>

text \<open>C9: for every input text and either value of \<open>show_work\<close>, \<open>get_stoic\<close> returns: a
  coefficient list or \<open>None\<close> without \<open>show_work\<close>, the six-tuple with it. Every loop of
  the program terminates, and every exception the \<open>try\<close> block can raise is of class
  \<open>Exception\<close>, which the handler swallows.\<close>

theorem get_stoic_returns:
  "(\<exists>out final. get_stoic U equation False = Inr (out, Coeffs final))
   \<and> (\<exists>out final md vec simplified_vec multiplier raw_coeffs.
         get_stoic U equation True
           = Inr (out, Work final md vec simplified_vec multiplier raw_coeffs))"
proof -
  have a: "\<exists>out final. get_stoic U equation False = Inr (out, Coeffs final)"
  proof (cases "get_stoic_try U equation False")
    case (Inl e)
    then show ?thesis by (simp add: get_stoic_def isinstance_Exception)
  next
    case (Inr r)
    then obtain md where "r = solve md False"
      by (auto simp: get_stoic_try_def split: sum.splits)
    with Inr show ?thesis using solve_shape[of md] by (auto simp: get_stoic_def)
  qed
  have b: "\<exists>out final md vec simplified_vec multiplier raw_coeffs.
         get_stoic U equation True
           = Inr (out, Work final md vec simplified_vec multiplier raw_coeffs)"
  proof (cases "get_stoic_try U equation True")
    case (Inl e)
    then show ?thesis by (simp add: get_stoic_def isinstance_Exception)
  next
    case (Inr r)
    then obtain md where "r = solve md True"
      by (auto simp: get_stoic_try_def split: sum.splits)
    with Inr show ?thesis using solve_shape[of md] by (auto simp: get_stoic_def)
  qed
  from a b show ?thesis by blast
qed

section \<open>The pre-validation\<close>

text \<open>C10, as the program has it: a formula that ends in a digit, has a letter before its
  last character, has at least one uppercase character and contains the digit 0 or 1 is
  refused by \<open>atom_count_in_formula\<close> with the invalid-formula \<open>ValueError\<close>, whose
  suggestion is the formula with every 0 replaced by O and every 1 by I, and differs
  from the formula. The code points 48 and 49 are the digits 0 and 1, 79 and 73 the
  letters O and I.\<close>

theorem suspicious_formula_raises:
  assumes "formula \<noteq> []"
    and "isdigit U (last formula)"
    and "list_ex (isalpha U) (butlast formula)"
    and "list_ex (isupper U) formula"
    and "48 \<in> set formula \<or> 49 \<in> set formula"
  shows "atom_count_in_formula U formula
           = Inl (ValueError (Invalid_formula formula (replace 49 73 (replace 48 79 formula))))
         \<and> replace 49 73 (replace 48 79 formula) \<noteq> formula"
proof -
  have s: "suspicious U formula" using assms by (simp add: suspicious_def)
  have "validate_formula U formula
          = Inl (ValueError (Invalid_formula formula (replace 49 73 (replace 48 79 formula))))"
    using s assms(1) by (simp add: validate_formula_cases suggest_eq)
  moreover have "replace 49 73 (replace 48 79 formula) \<noteq> formula"
    using suggested_differs[of formula] assms(5) by (simp add: suggest_eq)
  ultimately show ?thesis by (subst atom_count_in_formula.simps) simp
qed

text \<open>The decane formula \<open>C10H22\<close> is refused, with the suggestion \<open>CIOH22\<close>.\<close>

theorem suspicious_formula_raises_witness:
  "str ''C10H22'' \<noteq> []
   \<and> isdigit ascii_db (last (str ''C10H22''))
   \<and> list_ex (isalpha ascii_db) (butlast (str ''C10H22''))
   \<and> list_ex (isupper ascii_db) (str ''C10H22'')
   \<and> 49 \<in> set (str ''C10H22'')
   \<and> atom_count_in_formula ascii_db (str ''C10H22'')
       = Inl (ValueError (Invalid_formula (str ''C10H22'') (str ''CIOH22'')))"
proof -
  have h1: "str ''C10H22'' \<noteq> []" by code_simp
  have h2: "isdigit ascii_db (last (str ''C10H22''))" by code_simp
  have h3: "list_ex (isalpha ascii_db) (butlast (str ''C10H22''))" by code_simp
  have h4: "list_ex (isupper ascii_db) (str ''C10H22'')" by code_simp
  have h5: "49 \<in> set (str ''C10H22'')" by code_simp
  have r: "replace 49 73 (replace 48 79 (str ''C10H22'')) = str ''CIOH22''" by code_simp
  from suspicious_formula_raises[OF h1 h2 h3 h4] h5 r
  show ?thesis using h1 h2 h3 h4 by simp
qed

text \<open>C10 as stated asks only for a letter before the last character. The elements are
  collected from uppercase characters, so a formula whose letters are all lowercase passes
  the pre-validation: \<open>h10\<close> is accepted, with no atoms counted.\<close>

theorem lowercase_formula_counterexample:
  "isdigit ascii_db (last (str ''h10''))
   \<and> list_ex (isalpha ascii_db) (butlast (str ''h10''))
   \<and> 48 \<in> set (str ''h10'')
   \<and> atom_count_in_formula ascii_db (str ''h10'') = Inr []"
  by code_simp

section \<open>When counting atoms fails\<close>

text \<open>C4, as the program has it: on a formula of ASCII characters, middle dots and arrows,
  \<open>atom_count_in_formula\<close> raises exactly when the formula, or one of its parts between
  middle dots, is empty or is refused by the pre-validation. Parentheses that do not match
  and digit runs that follow nothing are never a reason to fail.\<close>

theorem atom_count_fails_iff:
  assumes "list_all named_cp formula"
  shows "isl (atom_count_in_formula U formula)
           = (rejected U formula \<or> list_ex (rejected U) (split_on MIDDLE_DOT formula))"
proof (cases "MIDDLE_DOT \<in> set formula")
  case False
  then show ?thesis
    using atom_count_plain[OF False assms] by (simp add: split_on_absent)
next
  case True
  have parts: "isl (atom_count_in_formula U part) = rejected U part"
    if "part \<in> set (split_on MIDDLE_DOT formula)" for part
  proof -
    from split_on_parts[OF that] have a: "MIDDLE_DOT \<notin> set part" and b: "set part \<subseteq> set formula"
      by auto
    from b assms have "list_all named_cp part" by (auto simp: list_all_iff)
    with a show ?thesis by (rule atom_count_plain)
  qed
  have ex: "list_ex isl (map (atom_count_in_formula U) (split_on MIDDLE_DOT formula))
              = list_ex (rejected U) (split_on MIDDLE_DOT formula)"
    using parts by (auto simp: list_ex_iff)
  show ?thesis
  proof (cases "rejected U formula")
    case r: True
    then have "isl (validate_formula U formula)"
      by (auto simp: validate_formula_cases rejected_def)
    then show ?thesis using r
      by (subst atom_count_in_formula.simps) (auto split: sum.splits)
  next
    case r: False
    then have v: "validate_formula U formula = Inr ()"
      by (auto simp: validate_formula_cases rejected_def)
    show ?thesis using v True r ex
      by (subst atom_count_in_formula.simps) (simp add: sum_parts_isl)
  qed
qed

text \<open>The unclosed \<open>Mg(OH\<close> is accepted.\<close>

theorem atom_count_fails_iff_witness:
  "list_all named_cp (str ''Mg(OH'')
   \<and> isl (atom_count_in_formula ascii_db (str ''Mg(OH'')) = False"
proof -
  have h: "list_all named_cp (str ''Mg(OH'')" by code_simp
  have r: "(rejected ascii_db (str ''Mg(OH'')
            \<or> list_ex (rejected ascii_db) (split_on MIDDLE_DOT (str ''Mg(OH''))) = False"
    by code_simp
  from atom_count_fails_iff[OF h, of ascii_db] r h show ?thesis by simp
qed

text \<open>C4 as stated fails on each of its three kinds of malformed formula: the unclosed
  \<open>(H2O\<close>, the unopened \<open>H2)3\<close> and the bare multiplier of \<open>2H2O\<close> all return atom
  counts.\<close>

theorem tolerant_parse_counterexample:
  "atom_count_in_formula ascii_db (str ''(H2O'') = Inr [(str ''H'', 2), (str ''O'', 1)]
   \<and> atom_count_in_formula ascii_db (str ''H2)3'') = Inr [(str ''H'', 2)]
   \<and> atom_count_in_formula ascii_db (str ''2H2O'') = Inr [(str ''H'', 2), (str ''O'', 1)]"
  by code_simp

section \<open>Minimal coefficients\<close>



section \<open>When the equation parser fails\<close>

text \<open>C7, as the program has it: \<open>equation_parser\<close> raises the invalid-equation
  \<open>ValueError\<close> exactly when the text does not contain exactly one separator token. A side
  never splits into zero species: an empty side is the one empty species. With exactly
  one separator the parser fails exactly when \<open>atom_count_in_formula\<close> fails on one of the
  species, and otherwise returns the parsed equation.\<close>

theorem equation_parser_outcomes:
  "(equation_parser U self equation = Inl (ValueError Invalid_equation))
     = (separator_count equation \<noteq> 1)
   \<and> split_on PLUS side \<noteq> []
   \<and> (separator_count equation = 1 \<longrightarrow>
        isl (equation_parser U self equation)
          = list_ex (\<lambda>sp. isl (atom_count_in_formula U sp)) (species_of U equation))"
proof (intro conjI impI)
  show "split_on PLUS side \<noteq> []" by (rule split_on_nonempty)
next
  show "(equation_parser U self equation = Inl (ValueError Invalid_equation))
          = (separator_count equation \<noteq> 1)"
  proof (cases "separator_count equation = 1")
    case False
    then show ?thesis
      using parts_length[of U equation] by (simp add: equation_parser_def Let_def)
  next
    case True
    then have two: "length (re_split U [] (strip U equation)) = 2"
      using parts_length[of U equation] by simp
    have "equation_parser U self equation \<noteq> Inl (ValueError Invalid_equation)"
    proof
      assume a: "equation_parser U self equation = Inl (ValueError Invalid_equation)"
      then obtain self2 where
        "get_atom_count U self2 = Inl (ValueError Invalid_equation)
         \<or> (\<exists>self3. get_species_dicts self3 = Inl (ValueError Invalid_equation))"
        using two by (auto simp: equation_parser_def Let_def split: sum.splits)
      then show False
      proof
        assume "get_atom_count U self2 = Inl (ValueError Invalid_equation)"
        then show False using atom_count_loop_error by (auto simp: get_atom_count_def)
      next
        assume "\<exists>self3. get_species_dicts self3 = Inl (ValueError Invalid_equation)"
        then show False by (auto dest: get_species_dicts_error)
      qed
    qed
    with True show ?thesis by simp
  qed
next
  assume "separator_count equation = 1"
  then have two: "length (re_split U [] (strip U equation)) = 2"
    using parts_length[of U equation] by simp
  define parts where "parts = re_split U [] (strip U equation)"
  define self2 where
    "self2 = self\<lparr> reactants := map (strip U) (split_on PLUS (parts ! 0)),
                   products := map (strip U) (split_on PLUS (parts ! 1)),
                   chem_species := map (strip U) (split_on PLUS (parts ! 0))
                                   @ map (strip U) (split_on PLUS (parts ! 1)) \<rparr>"
  have ep: "equation_parser U self equation =
          (case get_atom_count U self2 of Inl e \<Rightarrow> Inl e | Inr self3 \<Rightarrow> get_species_dicts self3)"
    using two by (simp add: equation_parser_def Let_def parts_def self2_def)
  have sp: "chem_species self2 = species_of U equation"
    by (simp add: self2_def species_of_def parts_def Let_def)
  have ga: "isl (get_atom_count U self2)
              = list_ex (\<lambda>sp. isl (atom_count_in_formula U sp)) (species_of U equation)"
    by (simp add: get_atom_count_def atom_count_loop_isl sp)
  show "isl (equation_parser U self equation)
          = list_ex (\<lambda>sp. isl (atom_count_in_formula U sp)) (species_of U equation)"
  proof (cases "get_atom_count U self2")
    case (Inl e)
    with ep ga show ?thesis by simp
  next
    case (Inr self3)
    from get_atom_count_then_dicts[OF Inr] obtain self4
      where "get_species_dicts self3 = Inr self4" ..
    with ep ga Inr show ?thesis by simp
  qed
qed

text \<open>The equation \<open>H2 + O2 -> H2O\<close> has one separator and is parsed.\<close>

theorem equation_parser_outcomes_witness:
  "separator_count (str ''H2 + O2 -> H2O'') = 1
   \<and> isl (equation_parser ascii_db init_parser (str ''H2 + O2 -> H2O'')) = False"
proof -
  have h: "separator_count (str ''H2 + O2 -> H2O'') = 1" by code_simp
  have r: "list_ex (\<lambda>sp. isl (atom_count_in_formula ascii_db sp))
             (species_of ascii_db (str ''H2 + O2 -> H2O'')) = False" by code_simp
  from equation_parser_outcomes[of ascii_db init_parser "str ''H2 + O2 -> H2O''" "[]"] h r
  show ?thesis by simp
qed

text \<open>C7 as stated fails where a species is refused: with its one separator, \<open>-> H2O\<close> has
  the empty species on the left and raises \<open>IndexError\<close>, and \<open>H20 -> H2 + O2\<close> raises the
  invalid-formula error; neither is the invalid-equation error, neither is a parsed
  equation.\<close>

theorem equation_parser_counterexample:
  "separator_count (str ''-> H2O'') = 1
   \<and> equation_parser ascii_db init_parser (str ''-> H2O'') = Inl IndexError
   \<and> separator_count (str ''H20 -> H2 + O2'') = 1
   \<and> equation_parser ascii_db init_parser (str ''H20 -> H2 + O2'')
       = Inl (ValueError (Invalid_formula (str ''H20'') (str ''H2O'')))"
  by code_simp

section \<open>Vectors of mixed sign\<close>

text \<open>C1: a null-space vector of mixed sign should be reported as a failure. The program
  does otherwise: for \<open>H2 + H2O -> O2\<close> the matrix has the rows 2, 2, 0 (hydrogen) and
  0, 1, -2 (oxygen), the first null-space vector and the scaled vector are -2, 2, 1, and
  the value returned is the list of absolute values 2, 2, 1. The rescue of a negated
  vector is guarded by \<open>any(coeff < 0)\<close>, which a vector of mixed sign passes as well.\<close>

theorem mixed_sign_vector_returned_absolute:
  "get_stoic U (str ''H2 + H2O -> O2'') True
     = Inr ([], Work (Some [2, 2, 1])
                  (Some \<lparr> matrix = [[2, 2, 0], [0, 1, - 2]],
                           elements = [str ''H'', str ''O''],
                           species = [str ''H2'', str ''H2O'', str ''O2''] \<rparr>)
                  (Some [- 2, 2, 1]) (Some [- 2, 2, 1]) (Some 1) (Some [- 2, 2, 1]))"
  by code_simp

section \<open>Conservation of the elements\<close>

text \<open>C5: the coefficients returned should conserve every element. For
  \<open>H2 + H2O -> O2\<close> the program returns 2, 2, 1; with the atom counts of the three
  species, hydrogen then sums to 2 * 2 + 2 * 2 + 0 * 1 = 8, not 0.\<close>

theorem returned_coefficients_unbalanced:
  "get_stoic U (str ''H2 + H2O -> O2'') False = Inr ([], Coeffs (Some [2, 2, 1]))
   \<and> atom_count_in_formula U (str ''H2'') = Inr [(str ''H'', 2)]
   \<and> atom_count_in_formula U (str ''H2O'') = Inr [(str ''H'', 2), (str ''O'', 1)]
   \<and> atom_count_in_formula U (str ''O2'') = Inr [(str ''O'', 2)]
   \<and> signed_totals [[2, 2, 0], [0, 1, - 2]] [2, 2, 1] = [8, 0]"
  by code_simp

section \<open>Parse errors and equations that cannot be balanced\<close>

text \<open>C3: a caller should be able to tell a malformed input from a well-formed equation
  that cannot be balanced. Without \<open>show_work\<close> the program returns the same for both:
  the text \<open>H2 O2 H2O\<close> without a separator raises the invalid-equation error and
  \<open>H20 + O2 -> H2O\<close> the invalid-formula error with its suggestion, the well-formed
  \<open>C + O2 -> CO2 + N2\<close> raises nothing and has no positive solution, and \<open>get_stoic\<close>
  returns \<open>None\<close> and prints nothing in all three cases.\<close>

theorem parse_error_returned_as_none:
  "get_stoic_try U (str ''H2 O2 H2O'') False = Inl (ValueError Invalid_equation)
   \<and> get_stoic_try U (str ''H20 + O2 -> H2O'') False
       = Inl (ValueError (Invalid_formula (str ''H20'') (str ''H2O'')))
   \<and> get_stoic_try U (str ''C + O2 -> CO2 + N2'') False = Inr ([], Coeffs None)
   \<and> get_stoic U (str ''H2 O2 H2O'') False = Inr ([], Coeffs None)
   \<and> get_stoic U (str ''H20 + O2 -> H2O'') False = Inr ([], Coeffs None)
   \<and> get_stoic U (str ''C + O2 -> CO2 + N2'') False = Inr ([], Coeffs None)"
proof -
  have a: "get_stoic_try U (str ''H2 O2 H2O'') False = Inl (ValueError Invalid_equation)"
    by code_simp
  have b: "get_stoic_try U (str ''H20 + O2 -> H2O'') False
             = Inl (ValueError (Invalid_formula (str ''H20'') (str ''H2O'')))"
    by code_simp
  have c: "get_stoic_try U (str ''C + O2 -> CO2 + N2'') False = Inr ([], Coeffs None)"
    by code_simp
  show ?thesis
    by (simp add: a b c get_stoic_def isinstance_Exception)
qed

end
